theory Spec2Isabelle
  imports Complex_Main
begin

section \<open>Python strings\<close>

text \<open>
  A Python \<open>str\<close> is modelled as a \<open>string\<close> whose characters are the code points
  below 256. \<open>isspace\<close> and \<open>lower_char\<close> are what \<open>str.isspace\<close> and \<open>str.lower\<close>
  do on these code points.
\<close>

definition isspace :: "char \<Rightarrow> bool" where
  "isspace c =
     (let n = (of_char c :: nat)
      in (9 \<le> n \<and> n \<le> 13) \<or> (28 \<le> n \<and> n \<le> 32) \<or> n = 133 \<or> n = 160)"

definition strip :: "string \<Rightarrow> string" where
  "strip s = rev (dropWhile isspace (rev (dropWhile isspace s)))"

definition lower_char :: "char \<Rightarrow> char" where
  "lower_char c =
     (let n = (of_char c :: nat)
      in if (65 \<le> n \<and> n \<le> 90) \<or> (192 \<le> n \<and> n \<le> 222 \<and> n \<noteq> 215)
         then char_of (n + 32) else c)"

definition lower :: "string \<Rightarrow> string" where
  "lower s = map lower_char s"

text \<open>\<open>startswith s p\<close> is \<open>s.startswith(p)\<close>; \<open>str_in p s\<close> is \<open>p in s\<close>.\<close>

fun startswith :: "string \<Rightarrow> string \<Rightarrow> bool" where
  "startswith s [] = True"
| "startswith [] (p # ps) = False"
| "startswith (c # cs) (p # ps) = (c = p \<and> startswith cs ps)"

fun str_in :: "string \<Rightarrow> string \<Rightarrow> bool" where
  "str_in p [] = (p = [])"
| "str_in p (c # cs) = (startswith (c # cs) p \<or> str_in p cs)"

section \<open>Parsed pages\<close>

text \<open>
  BeautifulSoup is a library outside the repository. An element is the part of a
  \<open>Tag\<close> the scraper reads: its attributes and its text. A parsed document maps a CSS
  selector to the elements it matches, in document order, and the parser itself is a
  parameter \<open>bs\<close> of every function that calls \<open>BeautifulSoup(html, 'html.parser')\<close>.
\<close>

record tag =
  tag_attrs :: "(string \<times> string) list"
  tag_text :: string

type_synonym soup = "string \<Rightarrow> tag list"

type_synonym html_parser = "string \<Rightarrow> soup"

text \<open>
  The exceptions of the model. \<open>OtherError name\<close> is an exception raised inside the
  \<open>requests\<close> library that is not a \<open>RequestException\<close>.
\<close>

datatype error = KeyError string | ZeroDivisionError | ValueError | OtherError string

text \<open>\<open>tag.get(k)\<close> gives \<open>None\<close> for a missing attribute, \<open>tag[k]\<close> raises.\<close>

definition tag_get :: "tag \<Rightarrow> string \<Rightarrow> string option" where
  "tag_get t k = map_of (tag_attrs t) k"

definition tag_item :: "tag \<Rightarrow> string \<Rightarrow> error + string" where
  "tag_item t k = (case map_of (tag_attrs t) k of None \<Rightarrow> Inl (KeyError k) | Some v \<Rightarrow> Inr v)"

definition select :: "soup \<Rightarrow> string \<Rightarrow> tag list" where
  "select sp sel = sp sel"

definition select_one :: "soup \<Rightarrow> string \<Rightarrow> tag option" where
  "select_one sp sel = (case sp sel of [] \<Rightarrow> None | t # _ \<Rightarrow> Some t)"

section \<open>JewelryScraperConfig\<close>

text \<open>
  The fields of the configuration that the crawl reads. The selector table is the
  same for every job (nothing assigns to it), so each entry is a constant.
\<close>

record config =
  BASE_URL :: string
  CATEGORY_URLS :: "string list"

definition SEL_product_links :: string where
  "SEL_product_links = ''.product-item a.product-link''"

definition SEL_pagination :: string where
  "SEL_pagination = ''.pagination a.next''"

definition SEL_product_title :: string where
  "SEL_product_title = ''.product-title''"

definition SEL_product_sku :: string where
  "SEL_product_sku = ''.product-sku''"

definition SEL_product_price :: string where
  "SEL_product_price = ''.product-price''"

definition SEL_product_stock :: string where
  "SEL_product_stock = ''.stock-status''"

definition SEL_product_description :: string where
  "SEL_product_description = ''.product-description''"

definition SEL_product_images :: string where
  "SEL_product_images = ''.product-gallery img''"

definition SEL_product_materials :: string where
  "SEL_product_materials = ''.materials-list''"

definition SEL_product_dimensions :: string where
  "SEL_product_dimensions = ''.dimensions''"

definition SEL_product_weight :: string where
  "SEL_product_weight = ''.weight''"

section \<open>Page extraction (jewelry\_scraper.py)\<close>

text \<open>
  \<open>extract_product_links\<close>: the comprehension reads \<open>elem['href']\<close> of every matched
  element in order, so the first element without the attribute raises \<open>KeyError\<close>.
\<close>

definition resolve :: "config \<Rightarrow> string \<Rightarrow> string" where
  "resolve cfg href = (if startswith href ''http'' then href else BASE_URL cfg @ href)"

fun links_of :: "config \<Rightarrow> tag list \<Rightarrow> error + string list" where
  "links_of cfg [] = Inr []"
| "links_of cfg (elem # elems) =
     (case tag_item elem ''href'' of
        Inl e \<Rightarrow> Inl e
      | Inr href \<Rightarrow>
          (case links_of cfg elems of
             Inl e \<Rightarrow> Inl e
           | Inr rest \<Rightarrow> Inr (resolve cfg href # rest)))"

definition extract_product_links :: "html_parser \<Rightarrow> config \<Rightarrow> string \<Rightarrow> error + string list" where
  "extract_product_links bs cfg html = links_of cfg (select (bs html) SEL_product_links)"

text \<open>
  \<open>get_next_page_url\<close>: an absent anchor, an absent \<open>href\<close> and an empty \<open>href\<close> are
  all falsy. The parameter \<open>current_url\<close> is not read.
\<close>

definition get_next_page_url :: "html_parser \<Rightarrow> config \<Rightarrow> string \<Rightarrow> string \<Rightarrow> string option" where
  "get_next_page_url bs cfg html current_url =
     (case select_one (bs html) SEL_pagination of
        None \<Rightarrow> None
      | Some next_button \<Rightarrow>
          (case tag_get next_button ''href'' of
             None \<Rightarrow> None
           | Some next_url \<Rightarrow>
               if next_url = [] then None
               else if \<not> startswith next_url ''http'' then Some (BASE_URL cfg @ next_url)
               else Some next_url))"

text \<open>
  The product dictionary of \<open>parse_product_page\<close>. The field \<open>last_updated\<close> is the
  wall-clock time of the extraction and is left out.
\<close>

record product =
  sku :: string
  title :: string
  price :: string
  stock_status :: string
  description :: string
  materials :: string
  dimensions :: string
  weight :: string
  main_image :: string
  other_images :: "string list"
  url :: string

definition stock_status_of :: "tag option \<Rightarrow> string" where
  "stock_status_of stock_elem =
     (case stock_elem of
        None \<Rightarrow> ''Available''
      | Some e \<Rightarrow>
          (let status_text = lower (strip (tag_text e))
           in if str_in ''out of stock'' status_text then ''Out of Stock''
              else if str_in ''production'' status_text \<or> str_in ''manufacturing'' status_text
                then ''In Production''
              else if str_in ''discontinued'' status_text \<or> str_in ''removed'' status_text
                then ''Removed''
              else ''Available''))"

text \<open>\<open>img.get('src') or img.get('data-src')\<close>, kept when the result is truthy.\<close>

definition image_source :: "tag \<Rightarrow> string option" where
  "image_source img =
     (case tag_get img ''src'' of
        Some s \<Rightarrow> if s \<noteq> [] then Some s else tag_get img ''data-src''
      | None \<Rightarrow> tag_get img ''data-src'')"

fun images_of :: "tag list \<Rightarrow> string list" where
  "images_of [] = []"
| "images_of (img # imgs) =
     (case image_source img of
        Some s \<Rightarrow> if s \<noteq> [] then s # images_of imgs else images_of imgs
      | None \<Rightarrow> images_of imgs)"

definition text_or_empty :: "tag option \<Rightarrow> string" where
  "text_or_empty elem = (case elem of None \<Rightarrow> [] | Some e \<Rightarrow> strip (tag_text e))"

definition parse_product_page :: "html_parser \<Rightarrow> string \<Rightarrow> string \<Rightarrow> product option" where
  "parse_product_page bs html product_url =
     (let sp = bs html;
          title_elem = select_one sp SEL_product_title;
          sku_elem = select_one sp SEL_product_sku;
          price_elem = select_one sp SEL_product_price;
          stock_elem = select_one sp SEL_product_stock
      in case title_elem of
           None \<Rightarrow> None
         | Some t \<Rightarrow>
             (case sku_elem of
                None \<Rightarrow> None
              | Some s \<Rightarrow>
                  (let images = images_of (select sp SEL_product_images)
                   in Some \<lparr> sku = strip (tag_text s),
                             title = strip (tag_text t),
                             price = text_or_empty price_elem,
                             stock_status = stock_status_of stock_elem,
                             description = text_or_empty (select_one sp SEL_product_description),
                             materials = text_or_empty (select_one sp SEL_product_materials),
                             dimensions = text_or_empty (select_one sp SEL_product_dimensions),
                             weight = text_or_empty (select_one sp SEL_product_weight),
                             main_image = (case images of [] \<Rightarrow> [] | i # _ \<Rightarrow> i),
                             other_images = (case images of [] \<Rightarrow> [] | _ # r \<Rightarrow> r),
                             url = product_url \<rparr>)))"

section \<open>The stock classification as the specification words it\<close>

text \<open>
  A case-insensitive substring match of \<open>needle\<close> against the raw text \<open>t\<close>: some
  window of \<open>t\<close> equals the needle once both are folded to lower case.
\<close>

definition ci_match :: "string \<Rightarrow> string \<Rightarrow> bool" where
  "ci_match needle t =
     (\<exists>i \<in> {0..length t}. lower (take (length needle) (drop i t)) = lower needle)"

definition spec_stock_status :: "string option \<Rightarrow> string" where
  "spec_stock_status stock_text =
     (case stock_text of
        None \<Rightarrow> ''Available''
      | Some t \<Rightarrow>
          if ci_match ''out of stock'' t then ''Out of Stock''
          else if ci_match ''production'' t \<or> ci_match ''manufacturing'' t then ''In Production''
          else if ci_match ''discontinued'' t \<or> ci_match ''removed'' t then ''Removed''
          else ''Available'')"

section \<open>Sample pages\<close>

definition sample_tag :: "string \<Rightarrow> tag" where
  "sample_tag t = \<lparr> tag_attrs = [], tag_text = t \<rparr>"

definition anchor :: "string \<Rightarrow> tag" where
  "anchor href = \<lparr> tag_attrs = [(''href'', href)], tag_text = ''link'' \<rparr>"

text \<open>A product page with title, SKU and a stock line; the parser ignores the body.\<close>

definition ring_page :: html_parser where
  "ring_page html sel =
     (if sel = SEL_product_title then [sample_tag '' Gold Ring '']
      else if sel = SEL_product_sku then [sample_tag ''R-1'']
      else if sel = SEL_product_stock then [sample_tag '' Currently OUT of Stock '']
      else [])"

text \<open>A product page whose title and SKU elements are there but hold no text.\<close>

definition hollow_page :: html_parser where
  "hollow_page html sel =
     (if sel = SEL_product_title then [sample_tag '' '']
      else if sel = SEL_product_sku then [sample_tag []]
      else [])"

text \<open>A page with no element at all.\<close>

definition blank_page :: html_parser where
  "blank_page html sel = []"

text \<open>
  A listing page: two product anchors, the second one without \<open>href\<close> when the body
  is \<open>''broken''\<close>, and a next-page anchor that points at \<open>/rings\<close>.
\<close>

definition listing_page :: html_parser where
  "listing_page html sel =
     (if sel = SEL_product_links then
        (if html = ''broken'' then [anchor ''/p/1'', sample_tag ''no href'']
         else [anchor ''/p/1'', anchor ''http://cdn.example/p/2''])
      else if sel = SEL_pagination then [anchor ''/rings'']
      else [])"

definition shop :: config where
  "shop = \<lparr> BASE_URL = ''http://shop.example'', CATEGORY_URLS = [''/rings''] \<rparr>"

section \<open>The network and the fetcher\<close>

text \<open>
  \<open>requests\<close> is a library outside the repository. What the scraper observes of it
  is, for each \<open>session.get(url)\<close> followed by \<open>raise_for_status()\<close>, the text of the
  response or an exception. \<open>RequestException\<close> stands for the exceptions of that class
  (transport errors and non-2xx statuses are subclasses of it), \<open>OtherException name\<close>
  for an exception of any other class, which \<open>except RequestException\<close> does not catch
  (the \<open>LocationParseError\<close> of urllib3 for a malformed host name is one). The effects
  of the scraper on the outside are the requests it sends and the pauses it makes;
  they are recorded in order in a trace. The network is a parameter: it answers a
  request from the trace so far and the URL, so the same URL may fail on one attempt
  and succeed on the next.
\<close>

datatype response = Response string | RequestException | OtherException string

datatype event = Request string | Sleep rat

type_synonym network = "event list \<Rightarrow> string \<Rightarrow> response"

text \<open>\<open>time.sleep(secs)\<close> raises \<open>ValueError\<close> for a negative length.\<close>

definition sleep :: "rat \<Rightarrow> event list \<Rightarrow> error + event list" where
  "sleep secs tr = (if secs < 0 then Inl ValueError else Inr (tr @ [Sleep secs]))"

text \<open>
  \<open>get_page\<close>: the body of \<open>for attempt in range(retries)\<close> from \<open>attempt\<close> on. A
  failed attempt that is not the last one sleeps and goes on; the last one returns
  \<open>None\<close>; a loop that runs out (only when \<open>retries \<le> 0\<close>) falls off the end of the
  function, which returns \<open>None\<close> as well. Two exceptions leave the function: one
  that is not a \<open>RequestException\<close>, and the \<open>ValueError\<close> of \<open>time.sleep\<close>, which is
  called inside the handler.
\<close>

function get_page_from ::
  "network \<Rightarrow> string \<Rightarrow> int \<Rightarrow> rat \<Rightarrow> int \<Rightarrow> event list
     \<Rightarrow> (error + string option) \<times> event list" where
  "get_page_from net u retries delay attempt tr =
     (if attempt < retries then
        (case net tr u of
           Response txt \<Rightarrow> (Inr (Some txt), tr @ [Request u])
         | RequestException \<Rightarrow>
             if attempt < retries - 1
             then (case sleep delay (tr @ [Request u]) of
                     Inl e \<Rightarrow> (Inl e, tr @ [Request u])
                   | Inr tr1 \<Rightarrow> get_page_from net u retries delay (attempt + 1) tr1)
             else (Inr None, tr @ [Request u])
         | OtherException name \<Rightarrow> (Inl (OtherError name), tr @ [Request u]))
      else (Inr None, tr))"
  by pat_completeness auto
termination
  by (relation "measure (\<lambda>(net, u, retries, delay, attempt, tr). nat (retries - attempt))") auto

declare get_page_from.simps [simp del]

definition get_page ::
  "network \<Rightarrow> string \<Rightarrow> int \<Rightarrow> rat \<Rightarrow> event list \<Rightarrow> (error + string option) \<times> event list" where
  "get_page net u retries delay tr = get_page_from net u retries delay 0 tr"

text \<open>The number of requests in a trace, and the pauses of a trace.\<close>

definition requests_in :: "event list \<Rightarrow> nat" where
  "requests_in tr = length (filter (\<lambda>e. case e of Request _ \<Rightarrow> True | Sleep _ \<Rightarrow> False) tr)"

fun sleeps_in :: "event list \<Rightarrow> rat list" where
  "sleeps_in [] = []"
| "sleeps_in (Request _ # es) = sleeps_in es"
| "sleeps_in (Sleep d # es) = d # sleeps_in es"

text \<open>
  What a fetch that fails \<open>k\<close> times adds to the trace: a request and a pause for each
  failed attempt that is followed by another one.
\<close>

fun retry_trace :: "string \<Rightarrow> rat \<Rightarrow> nat \<Rightarrow> event list" where
  "retry_trace u delay 0 = []"
| "retry_trace u delay (Suc k) = Request u # Sleep delay # retry_trace u delay k"

text \<open>
  The outcome of the retry loop entered at \<open>attempt\<close>, after \<open>k\<close> failed attempts that
  were each followed by a pause: the trace it leaves, the bound on \<open>k\<close>, what the
  network answered at each attempt, and how the result follows from the last answer.
\<close>

definition fetch_shape ::
  "network \<Rightarrow> string \<Rightarrow> int \<Rightarrow> rat \<Rightarrow> int \<Rightarrow> event list \<Rightarrow> nat
     \<Rightarrow> error + string option \<Rightarrow> bool" where
  "fetch_shape net u retries delay attempt tr k r =
     (get_page_from net u retries delay attempt tr =
        (r, tr @ retry_trace u delay k @ (if attempt < retries then [Request u] else [])) \<and>
      attempt + int k < max retries (attempt + 1) \<and>
      (0 < k \<longrightarrow> 0 \<le> delay) \<and>
      (\<forall>j<k. net (tr @ retry_trace u delay j) u = RequestException) \<and>
      (case r of
         Inr (Some txt) \<Rightarrow> attempt < retries \<and> net (tr @ retry_trace u delay k) u = Response txt
       | Inr None \<Rightarrow> retries \<le> attempt \<or>
           (attempt + int k = retries - 1 \<and>
            net (tr @ retry_trace u delay k) u = RequestException)
       | Inl e \<Rightarrow> attempt < retries \<and>
           (net (tr @ retry_trace u delay k) u = RequestException \<and>
              attempt + int k < retries - 1 \<and> delay < 0 \<and> e = ValueError \<or>
            (\<exists>name. net (tr @ retry_trace u delay k) u = OtherException name \<and>
               e = OtherError name))))"

section \<open>The category crawler\<close>

text \<open>
  The \<open>while current_url\<close> loop of \<open>scrape_category\<close>. It may run forever, so it is a
  partial function: \<open>None\<close> is a loop that does not return. A returned value is the
  exception raised by \<open>get_page\<close> or by \<open>extract_product_links\<close> (nothing in the
  function catches them), or the accumulated links, with the trace. The pause of one
  second between two pages cannot raise.
  An empty body is falsy and stops the loop like a failed fetch. The page counter is
  only logged and is left out, as is the logging.
\<close>

partial_function (option) scrape_pages ::
  "network \<Rightarrow> html_parser \<Rightarrow> config \<Rightarrow> string \<Rightarrow> string list \<Rightarrow> event list
     \<Rightarrow> ((error + string list) \<times> event list) option" where
  "scrape_pages net bs cfg current_url product_links tr =
     (if current_url = [] then Some (Inr product_links, tr)
      else
        (case get_page net current_url 3 2 tr of
           (Inl e, tr1) \<Rightarrow> Some (Inl e, tr1)
         | (Inr None, tr1) \<Rightarrow> Some (Inr product_links, tr1)
         | (Inr (Some html), tr1) \<Rightarrow>
             if html = [] then Some (Inr product_links, tr1)
             else
               (case extract_product_links bs cfg html of
                  Inl e \<Rightarrow> Some (Inl e, tr1)
                | Inr links \<Rightarrow>
                    (case get_next_page_url bs cfg html current_url of
                       None \<Rightarrow> Some (Inr (product_links @ links), tr1)
                     | Some next_url \<Rightarrow>
                         if next_url \<noteq> [] \<and> next_url \<noteq> current_url
                         then scrape_pages net bs cfg next_url (product_links @ links)
                                (tr1 @ [Sleep 1])
                         else Some (Inr (product_links @ links), tr1)))))"

definition full_url :: "config \<Rightarrow> string \<Rightarrow> string" where
  "full_url cfg category_url =
     (if \<not> startswith category_url ''http'' then BASE_URL cfg @ category_url else category_url)"

definition scrape_category ::
  "network \<Rightarrow> html_parser \<Rightarrow> config \<Rightarrow> string \<Rightarrow> event list
     \<Rightarrow> ((error + string list) \<times> event list) option" where
  "scrape_category net bs cfg category_url tr =
     scrape_pages net bs cfg (full_url cfg category_url) [] tr"

text \<open>
  \<open>crawled net bs cfg (u, tr) links (u', tr')\<close>: starting at page \<open>u\<close> with trace \<open>tr\<close>,
  the loop fetches a run of pages, each with a non-empty body, extracts \<open>links\<close> from
  them in order, and follows their next-page links to stand at \<open>u'\<close> with trace \<open>tr'\<close>.
\<close>

inductive crawled ::
  "network \<Rightarrow> html_parser \<Rightarrow> config \<Rightarrow> string \<times> event list \<Rightarrow> string list
     \<Rightarrow> string \<times> event list \<Rightarrow> bool"
  for net :: network and bs :: html_parser and cfg :: config where
  here: "crawled net bs cfg (u, tr) [] (u, tr)"
| page: "u \<noteq> [] \<Longrightarrow> get_page net u 3 2 tr = (Inr (Some html), tr1) \<Longrightarrow> html \<noteq> [] \<Longrightarrow>
     extract_product_links bs cfg html = Inr links \<Longrightarrow>
     get_next_page_url bs cfg html u = Some next_url \<Longrightarrow>
     next_url \<noteq> [] \<Longrightarrow> next_url \<noteq> u \<Longrightarrow>
     crawled net bs cfg (next_url, tr1 @ [Sleep 1]) rest end_state \<Longrightarrow>
     crawled net bs cfg (u, tr) (links @ rest) end_state"

section \<open>Sample networks\<close>

text \<open>A network that never answers.\<close>

definition down :: network where
  "down tr u = RequestException"

text \<open>
  A network on which the third request fails inside the library with an exception that
  is not a \<open>RequestException\<close>, after two failures that are.
\<close>

definition third_breaks :: network where
  "third_breaks tr u =
     (if length tr < 4 then RequestException else OtherException ''LocationParseError'')"

text \<open>
  A site whose every page links forward to a new page: the body of the page at \<open>u\<close> is
  \<open>u\<close> itself, and its next-page anchor points at \<open>u\<close> followed by \<open>+\<close>.
\<close>

definition echo :: network where
  "echo tr u = Response u"

definition forward_page :: html_parser where
  "forward_page html sel = (if sel = SEL_pagination then [anchor (html @ ''+'')] else [])"

text \<open>
  A site with one good listing page at \<open>/rings\<close>, whose next-page anchor points at
  \<open>/rings2\<close>, which cannot be fetched.
\<close>

definition two_pages :: network where
  "two_pages tr u = (if u = ''http://shop.example/rings'' then Response ''first'' else RequestException)"

definition two_pages_parser :: html_parser where
  "two_pages_parser html sel =
     (if sel = SEL_product_links then [anchor ''/p/1'', anchor ''/p/2'']
      else if sel = SEL_pagination then [anchor ''/rings2'']
      else [])"



section \<open>The job worker (app.py)\<close>

text \<open>
  Progress arithmetic. \<open>/\<close> is true division and raises on a zero divisor; \<open>int\<close>
  truncates toward zero. Python computes the quotient and the product in binary
  floating point; here they are exact rationals.
\<close>

definition py_truediv :: "nat \<Rightarrow> nat \<Rightarrow> error + rat" where
  "py_truediv a b = (if b = 0 then Inl ZeroDivisionError else Inr (of_nat a / of_nat b))"

definition py_int :: "rat \<Rightarrow> int" where
  "py_int x = (if 0 \<le> x then \<lfloor>x\<rfloor> else \<lceil>x\<rceil>)"

text \<open>\<open>int((processed_categories / total_categories) * 30)\<close>\<close>

definition category_progress :: "nat \<Rightarrow> nat \<Rightarrow> error + int" where
  "category_progress processed_categories total_categories =
     (case py_truediv processed_categories total_categories of
        Inl e \<Rightarrow> Inl e
      | Inr q \<Rightarrow> Inr (py_int (q * 30)))"

text \<open>\<open>int(30 + ((i + 1) / len(unique_links) * 60))\<close>\<close>

definition product_progress :: "nat \<Rightarrow> nat \<Rightarrow> error + int" where
  "product_progress i n =
     (case py_truediv (i + 1) n of
        Inl e \<Rightarrow> Inl e
      | Inr q \<Rightarrow> Inr (py_int (30 + q * 60)))"

text \<open>Decimal formatting of a count inside an f-string.\<close>

definition digit_char :: "nat \<Rightarrow> char" where
  "digit_char d = char_of (48 + d)"

function str_of_nat :: "nat \<Rightarrow> string" where
  "str_of_nat n = (if n < 10 then [digit_char n] else str_of_nat (n div 10) @ [digit_char (n mod 10)])"
  by pat_completeness auto
termination
  by (relation "measure id") auto

declare str_of_nat.simps [simp del]

text \<open>
  The global \<open>scraper_status\<close> dictionary. \<open>time_elapsed\<close>, \<open>start_time\<close> and \<open>job_id\<close>
  are read from the wall clock and are left out.
\<close>

record scraper_status =
  status :: string
  progress :: int
  pages_crawled :: nat
  total_pages :: nat
  products_processed :: nat
  total_products :: nat
  available_products :: nat
  unavailable_products :: nat
  feed_status :: string

definition initial_status :: scraper_status where
  "initial_status =
     \<lparr> status = ''Idle'', progress = 0, pages_crawled = 0, total_pages = 0,
       products_processed = 0, total_products = 0, available_products = 0,
       unavailable_products = 0, feed_status = ''Pending'' \<rparr>"

text \<open>An entry of \<open>job_history\<close>, without its clock fields.\<close>

record history_entry =
  outcome :: string
  products_summary :: string
  issues_summary :: string

text \<open>The configuration document the worker is started with.\<close>

record app_config =
  base_url :: string
  categories :: "string list"
  request_delay :: rat

text \<open>
  Everything a running worker reads and writes: the global status and history, the
  trace of its requests and pauses, the two product lists of its scraper, and its
  issue counters. \<open>snapshots\<close> records every value the global status takes through
  \<open>update_scraper_status\<close>, in order: a status read between two updates returns the
  latest of them. \<open>hung\<close> is set when a category crawl never returns; the worker then
  makes no further step.
\<close>

record job =
  shared :: scraper_status
  snapshots :: "scraper_status list"
  job_history :: "history_entry list"
  trace :: "event list"
  products :: "product list"
  unavailable :: "product list"
  errors :: nat
  warnings :: nat
  hung :: bool

definition update_scraper_status :: "(scraper_status \<Rightarrow> scraper_status) \<Rightarrow> job \<Rightarrow> job" where
  "update_scraper_status update_dict j =
     j\<lparr> shared := update_dict (shared j), snapshots := snapshots j @ [update_dict (shared j)] \<rparr>"

text \<open>The first update of the worker.\<close>

definition running_update :: "scraper_status \<Rightarrow> scraper_status" where
  "running_update s = s\<lparr> status := ''Running'', progress := 0, feed_status := ''Processing'' \<rparr>"

text \<open>
  The loop over the categories, from the state \<open>(all_product_links,
  processed_categories, job)\<close>. An exception of the crawl is caught: it counts as an
  error and the progress is not updated. A \<open>ZeroDivisionError\<close> of the progress
  computation would be caught by the same handler, after the links were added and the
  counter was incremented.
\<close>

fun scrape_categories ::
  "network \<Rightarrow> html_parser \<Rightarrow> config \<Rightarrow> nat \<Rightarrow> string list \<Rightarrow> string list \<times> nat \<times> job
     \<Rightarrow> string list \<times> nat \<times> job" where
  "scrape_categories net bs cfg total_categories [] s = s"
| "scrape_categories net bs cfg total_categories (category_url # rest)
     (all_product_links, processed_categories, j) =
     (let j1 = update_scraper_status
                 (\<lambda>s. s\<lparr> status := ''Scraping category: '' @ category_url \<rparr>) j
      in case scrape_category net bs cfg category_url (trace j1) of
           None \<Rightarrow> (all_product_links, processed_categories, j1\<lparr> hung := True \<rparr>)
         | Some (Inl e, tr) \<Rightarrow>
             scrape_categories net bs cfg total_categories rest
               (all_product_links, processed_categories,
                j1\<lparr> trace := tr, errors := errors j1 + 1 \<rparr>)
         | Some (Inr category_links, tr) \<Rightarrow>
             (case category_progress (processed_categories + 1) total_categories of
                Inl e \<Rightarrow>
                  scrape_categories net bs cfg total_categories rest
                    (all_product_links @ category_links, processed_categories + 1,
                     j1\<lparr> trace := tr, errors := errors j1 + 1 \<rparr>)
              | Inr p \<Rightarrow>
                  scrape_categories net bs cfg total_categories rest
                    (all_product_links @ category_links, processed_categories + 1,
                     update_scraper_status
                       (\<lambda>s. s\<lparr> progress := p, pages_crawled := pages_crawled s,
                                total_pages := total_pages s \<rparr>)
                       (j1\<lparr> trace := tr \<rparr>))))"

text \<open>
  Routing of an extracted product, with the count update that follows it.
\<close>

definition route_product :: "product \<Rightarrow> job \<Rightarrow> job" where
  "route_product p j =
     (if stock_status p \<in> set [''Out of Stock'', ''In Production'', ''Removed'']
      then update_scraper_status
             (\<lambda>s. s\<lparr> unavailable_products := length (unavailable j) + 1 \<rparr>)
             (j\<lparr> unavailable := unavailable j @ [p] \<rparr>)
      else update_scraper_status
             (\<lambda>s. s\<lparr> available_products := length (products j) + 1 \<rparr>)
             (j\<lparr> products := products j @ [p] \<rparr>))"

text \<open>
  The loop over \<open>enumerate(unique_links)\<close>, at index \<open>i\<close> of \<open>n\<close> links. The update of
  \<open>time_elapsed\<close> writes no field of the model, but it is an update like the others.
  An exception inside the body is caught, counted as a warning, and ends the
  iteration: the \<open>ZeroDivisionError\<close> of the progress computation, an exception of
  \<open>get_page\<close>, and the \<open>ValueError\<close> of the pause when the configured delay is negative.
\<close>

fun process_products ::
  "network \<Rightarrow> html_parser \<Rightarrow> rat \<Rightarrow> nat \<Rightarrow> nat \<Rightarrow> string list \<Rightarrow> job \<Rightarrow> job" where
  "process_products net bs delay n i [] j = j"
| "process_products net bs delay n i (link # rest) j =
     (let j1 = update_scraper_status
                 (\<lambda>s. s\<lparr> status := ''Processing product '' @ str_of_nat (i + 1) @ ''/'' @ str_of_nat n,
                          products_processed := i + 1 \<rparr>) j
      in case product_progress i n of
           Inl e \<Rightarrow> process_products net bs delay n (i + 1) rest (j1\<lparr> warnings := warnings j1 + 1 \<rparr>)
         | Inr p \<Rightarrow>
             (let j2 = update_scraper_status (\<lambda>s. s\<lparr> progress := p \<rparr>) j1;
                  fetched = get_page net link 3 2 (trace j2);
                  j3 = j2\<lparr> trace := snd fetched \<rparr>
              in case fst fetched of
                   Inl e \<Rightarrow>
                     process_products net bs delay n (i + 1) rest
                       (j3\<lparr> warnings := warnings j3 + 1 \<rparr>)
                 | Inr page \<Rightarrow>
                     (let j4 = (case page of
                                  None \<Rightarrow> j3
                                | Some html \<Rightarrow>
                                    if html = [] then j3
                                    else (case parse_product_page bs html link of
                                            None \<Rightarrow> j3
                                          | Some product \<Rightarrow> route_product product j3));
                          j5 = update_scraper_status (\<lambda>s. s) j4
                      in case sleep (if i mod 10 = 0 then delay else 1 / 2) (trace j5) of
                           Inl e \<Rightarrow>
                             process_products net bs delay n (i + 1) rest
                               (j5\<lparr> warnings := warnings j5 + 1 \<rparr>)
                         | Inr tr \<Rightarrow>
                             process_products net bs delay n (i + 1) rest (j5\<lparr> trace := tr \<rparr>))))"

text \<open>
  \<open>scraper_thread\<close>, started on the global status \<open>st\<close> and history \<open>hist\<close>. The writer
  of the feed files is outside the repository: \<open>feeds_ok\<close> tells whether
  \<open>generate_feeds\<close> returns or raises. \<open>list(set(links))\<close> keeps one copy of each link in
  an order Python does not fix; \<open>remdups\<close> is one such order. The handler of the outer
  \<open>try\<close> has no exception to catch here: every exception of the model is raised inside
  one of the inner handlers.
\<close>

definition scraper_thread ::
  "network \<Rightarrow> html_parser \<Rightarrow> (product list \<Rightarrow> product list \<Rightarrow> bool) \<Rightarrow> app_config
     \<Rightarrow> scraper_status \<Rightarrow> history_entry list \<Rightarrow> event list \<Rightarrow> job" where
  "scraper_thread net bs feeds_ok config st hist tr =
     (let j0 = \<lparr> shared = st, snapshots = [], job_history = hist, trace = tr, products = [],
                 unavailable = [], errors = 0, warnings = 0, hung = False \<rparr>;
          j1 = update_scraper_status running_update j0;
          scraper_config = \<lparr> BASE_URL = base_url config, CATEGORY_URLS = categories config \<rparr>;
          total_categories = length (categories config);
          j2 = update_scraper_status (\<lambda>s. s\<lparr> total_pages := 0 \<rparr>) j1;
          crawl = scrape_categories net bs scraper_config total_categories
                    (CATEGORY_URLS scraper_config) ([], 0, j2);
          all_product_links = fst crawl;
          j3 = snd (snd crawl)
      in if hung j3 then j3
         else
           (let unique_links = remdups all_product_links;
                j4 = update_scraper_status
                       (\<lambda>s. s\<lparr> status := ''Processing products'',
                                total_products := length unique_links \<rparr>) j3;
                j5 = process_products net bs (request_delay config) (length unique_links) 0
                       unique_links j4;
                j6 = update_scraper_status
                       (\<lambda>s. s\<lparr> status := ''Generating feeds'', progress := 90 \<rparr>) j5;
                j7 = (if feeds_ok (products j6) (unavailable j6)
                      then update_scraper_status (\<lambda>s. s\<lparr> feed_status := ''Completed'' \<rparr>) j6
                      else update_scraper_status (\<lambda>s. s\<lparr> feed_status := ''Failed'' \<rparr>)
                             (j6\<lparr> errors := errors j6 + 1 \<rparr>));
                j8 = update_scraper_status (\<lambda>s. s\<lparr> status := ''Idle'', progress := 100 \<rparr>) j7
            in j8\<lparr> job_history := job_history j8 @
                 [\<lparr> outcome = ''Completed'',
                    products_summary = str_of_nat (length (products j8)) @ '' / '' @
                                       str_of_nat (length unique_links),
                    issues_summary =
                      (if errors j8 \<noteq> 0 \<or> warnings j8 \<noteq> 0
                       then str_of_nat (errors j8) @ '' errors, '' @
                            str_of_nat (warnings j8) @ '' warnings''
                       else ''None'') \<rparr>] \<rparr>))"

text \<open>
  What the progress invariant of the worker says of a job: the recorded progress
  values never decrease, and none exceeds the current one.
\<close>

definition progress_steady :: "job \<Rightarrow> bool" where
  "progress_steady j =
     (sorted (map progress (snapshots j)) \<and>
      list_all (\<lambda>s. progress s \<le> progress (shared j)) (snapshots j))"

section \<open>The start endpoint (app.py)\<close>

text \<open>
  The server holds the global status and the worker threads it has started. A thread
  is \<open>Started\<close> from \<open>thread.start()\<close> until it performs its first status update, then
  \<open>Working\<close>. \<open>start_scraper\<close> is the request handler; \<open>thread_begin i\<close> is thread \<open>i\<close>
  performing its first update. The two are separate steps of the server, since the
  handler returns without waiting for the thread.
\<close>

datatype thread_state = Started | Working

datatype http_response = Json string | Json_error nat string

record server =
  global_status :: scraper_status
  threads :: "thread_state list"

definition start_scraper :: "server \<Rightarrow> http_response \<times> server" where
  "start_scraper sv =
     (if status (global_status sv) \<noteq> ''Idle''
      then (Json_error 400 ''Scraper is already running'', sv)
      else (Json ''Scraper started'', sv\<lparr> threads := threads sv @ [Started] \<rparr>))"

definition thread_begin :: "nat \<Rightarrow> server \<Rightarrow> server" where
  "thread_begin i sv =
     (if i < length (threads sv) \<and> threads sv ! i = Started
      then sv\<lparr> global_status := running_update (global_status sv),
               threads := (threads sv)[i := Working] \<rparr>
      else sv)"

definition idle_server :: server where
  "idle_server = \<lparr> global_status = initial_status, threads = [] \<rparr>"

section \<open>A sample job\<close>

definition rings_job :: app_config where
  "rings_job = \<lparr> base_url = ''http://shop.example'', categories = [''/rings''], request_delay = 2 \<rparr>"



section \<open>Facts about the string operations\<close>


lemma startswith_iff: "startswith s p \<longleftrightarrow> (\<exists>ss. s = p @ ss)"
  by (induction s p rule: startswith.induct) auto

lemma str_in_iff: "str_in p s \<longleftrightarrow> (\<exists>ps ss. s = ps @ p @ ss)"
proof (induction s)
  case Nil
  then show ?case by auto
next
  case (Cons c cs)
  show ?case
  proof
    assume "str_in p (c # cs)"
    then consider "startswith (c # cs) p" | "str_in p cs" by auto
    then show "\<exists>ps ss. c # cs = ps @ p @ ss"
    proof cases
      case 1
      then obtain ss where "c # cs = p @ ss" by (auto simp: startswith_iff)
      then have "c # cs = [] @ p @ ss" by simp
      then show ?thesis by blast
    next
      case 2
      then obtain ps ss where "cs = ps @ p @ ss" using Cons.IH by blast
      then have "c # cs = (c # ps) @ p @ ss" by simp
      then show ?thesis by blast
    qed
  next
    assume "\<exists>ps ss. c # cs = ps @ p @ ss"
    then obtain ps ss where e: "c # cs = ps @ p @ ss" by blast
    show "str_in p (c # cs)"
    proof (cases ps)
      case Nil
      then have "startswith (c # cs) p" using e by (auto simp: startswith_iff)
      then show ?thesis by simp
    next
      case (Cons a ps')
      then have "cs = ps' @ p @ ss" using e by simp
      then have "str_in p cs" using Cons.IH by blast
      then show ?thesis by simp
    qed
  qed
qed

lemma strip_decomp: "\<exists>a b. s = a @ strip s @ b"
proof -
  let ?d = "dropWhile isspace s"
  have 1: "s = takeWhile isspace s @ ?d" by simp
  have "rev (takeWhile isspace (rev ?d) @ dropWhile isspace (rev ?d)) = rev (rev ?d)"
    by (simp only: takeWhile_dropWhile_id)
  then have "rev (dropWhile isspace (rev ?d)) @ rev (takeWhile isspace (rev ?d)) = ?d"
    by (simp only: rev_append rev_rev_ident)
  then have 2: "?d = strip s @ rev (takeWhile isspace (rev ?d))"
    by (simp only: strip_def)
  have "s = takeWhile isspace s @ strip s @ rev (takeWhile isspace (rev ?d))"
    using 1 2 by metis
  then show ?thesis by blast
qed

lemma strip_keeps:
  assumes "p \<noteq> []" "\<not> isspace (hd p)" "\<not> isspace (last p)"
  shows "strip (ps @ p @ ss) = dropWhile isspace ps @ p @ rev (dropWhile isspace (rev ss))"
proof -
  obtain x p' where p: "p = x # p'" using assms(1) by (cases p) auto
  obtain q y where q: "p = q @ [y]" using assms(1) by (cases p rule: rev_cases) auto
  have x: "\<not> isspace x" using assms(2) p by simp
  have y: "\<not> isspace y" using assms(3) q by simp
  have "dropWhile isspace (ps @ p @ ss) = dropWhile isspace ps @ p @ ss"
    using x p by (simp add: dropWhile_append3)
  moreover have "dropWhile isspace (rev (dropWhile isspace ps @ p @ ss))
      = dropWhile isspace (rev ss) @ rev p @ rev (dropWhile isspace ps)"
  proof -
    have "rev (dropWhile isspace ps @ p @ ss) = rev ss @ y # (rev q @ rev (dropWhile isspace ps))"
      using q by simp
    then show ?thesis using y q by (simp add: dropWhile_append3)
  qed
  ultimately show ?thesis by (simp add: strip_def)
qed

lemma str_in_strip:
  assumes "p \<noteq> []" "\<not> isspace (hd p)" "\<not> isspace (last p)"
  shows "str_in p (strip s) \<longleftrightarrow> str_in p s"
proof
  assume "str_in p (strip s)"
  then obtain ps ss where e: "strip s = ps @ p @ ss" by (auto simp: str_in_iff)
  obtain a b where "s = a @ strip s @ b" using strip_decomp by blast
  then have "s = (a @ ps) @ p @ (ss @ b)" using e by simp
  then show "str_in p s" unfolding str_in_iff by blast
next
  assume "str_in p s"
  then obtain ps ss where e: "s = ps @ p @ ss" by (auto simp: str_in_iff)
  show "str_in p (strip s)"
    unfolding str_in_iff e strip_keeps [OF assms] by blast
qed

lemma str_in_lower_iff:
  "str_in p (lower t) \<longleftrightarrow> (\<exists>i \<in> {0..length t}. lower (take (length p) (drop i t)) = p)"
proof
  assume "str_in p (lower t)"
  then obtain ps ss where e: "map lower_char t = ps @ p @ ss"
    by (auto simp: str_in_iff lower_def)
  have len: "length ps \<le> length t"
    using arg_cong [OF e, of length] by simp
  have "take (length p) (drop (length ps) (map lower_char t)) = p"
    by (simp add: e)
  then have "lower (take (length p) (drop (length ps) t)) = p"
    by (simp add: lower_def take_map drop_map)
  then show "\<exists>i \<in> {0..length t}. lower (take (length p) (drop i t)) = p"
    using len by auto
next
  assume "\<exists>i \<in> {0..length t}. lower (take (length p) (drop i t)) = p"
  then obtain i where i: "lower (take (length p) (drop i t)) = p" by blast
  have "lower t = take i (lower t) @ drop i (lower t)" by simp
  also have "drop i (lower t) = take (length p) (drop i (lower t)) @ drop (length p) (drop i (lower t))"
    by (simp only: append_take_drop_id)
  also have "take (length p) (drop i (lower t)) = p"
    using i by (simp add: lower_def take_map drop_map)
  finally have "lower t = take i (lower t) @ p @ drop (length p) (drop i (lower t))" .
  then show "str_in p (lower t)" unfolding str_in_iff by blast
qed

lemma strip_lower: "strip (lower t) = lower (strip t)"
proof -
  have sp: "isspace \<circ> lower_char = isspace"
  proof
    fix c
    have "\<And>n::nat. n \<le> 222 \<Longrightarrow> (n + 32) mod 256 = n + 32" by simp
    then show "(isspace \<circ> lower_char) c = isspace c"
      by (auto simp: isspace_def lower_char_def Let_def)
  qed
  show ?thesis
    by (simp add: strip_def lower_def dropWhile_map rev_map sp)
qed

lemma code_match_is_ci_match:
  assumes "p \<noteq> []" "\<not> isspace (hd p)" "\<not> isspace (last p)" "lower p = p"
  shows "str_in p (lower (strip t)) \<longleftrightarrow> ci_match p t"
proof -
  have "str_in p (lower (strip t)) \<longleftrightarrow> str_in p (strip (lower t))"
    by (simp add: strip_lower)
  also have "\<dots> \<longleftrightarrow> str_in p (lower t)"
    by (rule str_in_strip [OF assms(1-3)])
  also have "\<dots> \<longleftrightarrow> ci_match p t"
    by (simp add: str_in_lower_iff ci_match_def assms(4))
  finally show ?thesis .
qed

section \<open>Page extraction: stock status, required fields, links, pagination\<close>

lemma needles:
  "''out of stock'' \<noteq> []" "\<not> isspace (hd ''out of stock'')" "\<not> isspace (last ''out of stock'')" "lower ''out of stock'' = ''out of stock''"
  "''production'' \<noteq> []" "\<not> isspace (hd ''production'')" "\<not> isspace (last ''production'')" "lower ''production'' = ''production''"
  "''manufacturing'' \<noteq> []" "\<not> isspace (hd ''manufacturing'')" "\<not> isspace (last ''manufacturing'')" "lower ''manufacturing'' = ''manufacturing''"
  "''discontinued'' \<noteq> []" "\<not> isspace (hd ''discontinued'')" "\<not> isspace (last ''discontinued'')" "lower ''discontinued'' = ''discontinued''"
  "''removed'' \<noteq> []" "\<not> isspace (hd ''removed'')" "\<not> isspace (last ''removed'')" "lower ''removed'' = ''removed''"
  by (simp_all add: isspace_def lower_def lower_char_def)

lemma stock_status_of_spec:
  "stock_status_of elem = spec_stock_status (map_option tag_text elem)"
proof (cases elem)
  case None
  then show ?thesis by (simp add: stock_status_of_def spec_stock_status_def)
next
  case (Some e)
  show ?thesis
    unfolding Some stock_status_of_def spec_stock_status_def Let_def option.case option.map
      code_match_is_ci_match [OF needles(1-4)]
      code_match_is_ci_match [OF needles(5-8)]
      code_match_is_ci_match [OF needles(9-12)]
      code_match_is_ci_match [OF needles(13-16)]
      code_match_is_ci_match [OF needles(17-20)]
    by (rule refl)
qed

text \<open>
  Claim C1. Whenever \<open>parse_product_page\<close> has a title and a SKU element to build a
  product from, it returns a product whose stock status is the one the specification
  words: with a stock-status element, a case-insensitive substring match on the raw
  text of the element, tested in the order "out of stock", then "production" or
  "manufacturing", then "discontinued" or "removed", otherwise Available; with no
  stock-status element, Available. The code matches on the stripped, lower-cased
  text; the two agree because no keyword starts or ends with white space.
\<close>

theorem stock_status_by_ci_match:
  assumes "select_one (bs html) SEL_product_title = Some t"
    and "select_one (bs html) SEL_product_sku = Some s"
  shows "\<exists>p. parse_product_page bs html product_url = Some p \<and>
           stock_status p =
             spec_stock_status (map_option tag_text (select_one (bs html) SEL_product_stock))"
  using assms by (simp add: parse_product_page_def Let_def stock_status_of_spec)

lemma ring_page_selects:
  "select_one (ring_page h) SEL_product_title = Some (sample_tag '' Gold Ring '')"
  "select_one (ring_page h) SEL_product_sku = Some (sample_tag ''R-1'')"
  "select_one (ring_page h) SEL_product_stock = Some (sample_tag '' Currently OUT of Stock '')"
  by (simp_all add: select_one_def ring_page_def SEL_product_title_def SEL_product_sku_def
      SEL_product_stock_def)

lemma ring_text_matches: "ci_match ''out of stock'' '' Currently OUT of Stock ''"
  by code_simp

theorem stock_status_by_ci_match_witness:
  "select_one (ring_page ''<html>'') SEL_product_title = Some (sample_tag '' Gold Ring '') \<and>
   select_one (ring_page ''<html>'') SEL_product_sku = Some (sample_tag ''R-1'') \<and>
   (\<exists>p. parse_product_page ring_page ''<html>'' ''http://shop.example/p/1'' = Some p \<and>
        stock_status p = ''Out of Stock'')"
  using stock_status_by_ci_match [where bs = ring_page and html = "''<html>''"
      and product_url = "''http://shop.example/p/1''",
      OF ring_page_selects(1) ring_page_selects(2)]
  by (simp add: ring_page_selects spec_stock_status_def ring_text_matches sample_tag_def)

text \<open>
  Claim C8, amended. \<open>parse_product_page\<close> returns none exactly when the title element
  or the SKU element is absent from the page, and every product it returns was built
  from a title element and a SKU element of the page: its \<open>title\<close> and \<open>sku\<close> are their
  stripped texts. The texts themselves are not tested, so they may be empty.
\<close>

theorem parse_product_page_requires_title_and_sku:
  "(parse_product_page bs html product_url = None \<longleftrightarrow>
      select_one (bs html) SEL_product_title = None \<or>
      select_one (bs html) SEL_product_sku = None) \<and>
   (\<forall>p. parse_product_page bs html product_url = Some p \<longrightarrow>
      (\<exists>t s. select_one (bs html) SEL_product_title = Some t \<and>
             select_one (bs html) SEL_product_sku = Some s \<and>
             title p = strip (tag_text t) \<and> sku p = strip (tag_text s)))"
  by (auto simp: parse_product_page_def Let_def split: option.splits)

lemma strip_samples: "strip '' Gold Ring '' = ''Gold Ring''" "strip ''R-1'' = ''R-1''"
  by (simp_all add: strip_def isspace_def)

theorem parse_product_page_requires_title_and_sku_witness:
  "parse_product_page blank_page ''<html>'' ''http://shop.example/p/1'' = None \<and>
   (\<exists>p. parse_product_page ring_page ''<html>'' ''http://shop.example/p/1'' = Some p \<and>
        title p = ''Gold Ring'' \<and> sku p = ''R-1'')"
proof -
  have blank: "select_one (blank_page ''<html>'') SEL_product_title = None"
    by (simp add: select_one_def blank_page_def)
  have none: "parse_product_page blank_page ''<html>'' ''http://shop.example/p/1'' = None"
    using parse_product_page_requires_title_and_sku
      [of blank_page "''<html>''" "''http://shop.example/p/1''"] blank
    by simp
  have "parse_product_page ring_page ''<html>'' ''http://shop.example/p/1'' \<noteq> None"
    using parse_product_page_requires_title_and_sku
      [of ring_page "''<html>''" "''http://shop.example/p/1''"]
    by (simp add: ring_page_selects)
  then obtain p where p: "parse_product_page ring_page ''<html>'' ''http://shop.example/p/1'' = Some p"
    by blast
  then have "title p = ''Gold Ring'' \<and> sku p = ''R-1''"
    using parse_product_page_requires_title_and_sku
      [of ring_page "''<html>''" "''http://shop.example/p/1''"]
    by (auto simp: ring_page_selects sample_tag_def strip_samples)
  with p none show ?thesis by blast
qed

lemma links_of_all_href:
  "list_all (\<lambda>e. tag_get e ''href'' \<noteq> None) elems \<Longrightarrow>
   links_of cfg elems = Inr (map (\<lambda>e. resolve cfg (the (tag_get e ''href''))) elems)"
  by (induction elems) (auto simp: tag_item_def tag_get_def split: option.splits)

lemma links_of_missing_href:
  "\<not> list_all (\<lambda>e. tag_get e ''href'' \<noteq> None) elems \<Longrightarrow>
   links_of cfg elems = Inl (KeyError ''href'')"
  by (induction elems) (auto simp: tag_item_def tag_get_def split: option.splits sum.splits)

text \<open>
  Claim C8 as stated fails: on a page whose title and SKU elements hold only white
  space or nothing, a product is returned, and its title and its SKU are empty.
\<close>

theorem parse_product_page_keeps_empty_fields:
  "\<exists>p. parse_product_page hollow_page ''<html>'' ''http://shop.example/p/1'' = Some p \<and>
     title p = [] \<and> sku p = []"
  by (simp add: parse_product_page_def Let_def hollow_page_def select_one_def sample_tag_def
      strip_def isspace_def SEL_product_title_def SEL_product_sku_def)

text \<open>
  Claim C10. When every element matched by the product-link selector carries an
  \<open>href\<close>, \<open>extract_product_links\<close> returns the list of resolved links, one per
  element, in order; when some matched element has no \<open>href\<close>, it raises
  \<open>KeyError('href')\<close>. So the operation returns only under the precondition.
\<close>

theorem extract_product_links_total_iff_href:
  "(list_all (\<lambda>e. tag_get e ''href'' \<noteq> None) (select (bs html) SEL_product_links) \<longrightarrow>
      extract_product_links bs cfg html =
        Inr (map (\<lambda>e. resolve cfg (the (tag_get e ''href''))) (select (bs html) SEL_product_links))) \<and>
   (\<not> list_all (\<lambda>e. tag_get e ''href'' \<noteq> None) (select (bs html) SEL_product_links) \<longrightarrow>
      extract_product_links bs cfg html = Inl (KeyError ''href''))"
  by (simp add: extract_product_links_def links_of_all_href links_of_missing_href)

theorem extract_product_links_total_iff_href_witness:
  "extract_product_links listing_page shop ''page'' =
     Inr [''http://shop.example/p/1'', ''http://cdn.example/p/2''] \<and>
   extract_product_links listing_page shop ''broken'' = Inl (KeyError ''href'')"
proof -
  have ok: "list_all (\<lambda>e. tag_get e ''href'' \<noteq> None) (select (listing_page ''page'') SEL_product_links)"
    by (simp add: select_def listing_page_def anchor_def tag_get_def)
  have bad: "\<not> list_all (\<lambda>e. tag_get e ''href'' \<noteq> None) (select (listing_page ''broken'') SEL_product_links)"
    by (simp add: select_def listing_page_def anchor_def sample_tag_def tag_get_def)
  show ?thesis
    using extract_product_links_total_iff_href [of listing_page "''page''" shop]
      extract_product_links_total_iff_href [of listing_page "''broken''" shop] ok bad
    by (simp add: select_def listing_page_def anchor_def tag_get_def resolve_def shop_def)
qed

text \<open>
  Claim C2, amended. \<open>get_next_page_url\<close> returns none when the body has no next-page
  anchor; its result does not depend on the current page URL, and when the anchor's
  resolved URL equals the current page URL it returns that URL. (The comparison with
  the current URL is made by the caller, \<open>scrape_category\<close>.)
\<close>

theorem get_next_page_url_ignores_current_url:
  "(select_one (bs html) SEL_pagination = None \<longrightarrow>
      get_next_page_url bs cfg html current_url = None) \<and>
   get_next_page_url bs cfg html current_url = get_next_page_url bs cfg html other_url \<and>
   (\<forall>next_button href.
      select_one (bs html) SEL_pagination = Some next_button \<and>
      tag_get next_button ''href'' = Some href \<and> href \<noteq> [] \<and>
      resolve cfg href = current_url \<longrightarrow>
      get_next_page_url bs cfg html current_url = Some current_url)"
  by (auto simp: get_next_page_url_def resolve_def split: option.splits)

text \<open>
  Claim C2 as stated fails: on a page whose next-page anchor resolves to the current
  page URL, \<open>get_next_page_url\<close> returns that URL, not none.
\<close>

theorem get_next_page_url_returns_current_url:
  "get_next_page_url listing_page shop ''page'' ''http://shop.example/rings''
     = Some ''http://shop.example/rings''"
  by (simp add: get_next_page_url_def listing_page_def select_one_def anchor_def tag_get_def
      shop_def SEL_pagination_def SEL_product_links_def)

theorem get_next_page_url_ignores_current_url_witness:
  "get_next_page_url blank_page shop ''page'' ''http://shop.example/rings'' = None \<and>
   get_next_page_url listing_page shop ''page'' ''http://shop.example/rings''
     = Some ''http://shop.example/rings''"
proof -
  have blank: "select_one (blank_page ''page'') SEL_pagination = None"
    by (simp add: select_one_def blank_page_def)
  have sel: "select_one (listing_page ''page'') SEL_pagination = Some (anchor ''/rings'')"
    by (simp add: select_one_def listing_page_def SEL_pagination_def SEL_product_links_def)
  have href: "tag_get (anchor ''/rings'') ''href'' = Some ''/rings''" "''/rings'' \<noteq> []"
    "resolve shop ''/rings'' = ''http://shop.example/rings''"
    by (simp_all add: anchor_def tag_get_def resolve_def shop_def)
  show ?thesis
    using get_next_page_url_ignores_current_url
        [of blank_page "''page''" shop "''http://shop.example/rings''"]
      get_next_page_url_ignores_current_url
        [of listing_page "''page''" shop "''http://shop.example/rings''"]
      blank sel href
    by blast
qed

section \<open>The fetcher: bounded retries with a constant pause\<close>

lemma retry_trace_Suc_append:
  "tr @ retry_trace u delay (Suc k) = (tr @ [Request u, Sleep delay]) @ retry_trace u delay k"
  by simp

lemma requests_in_append: "requests_in (a @ b) = requests_in a + requests_in b"
  by (simp add: requests_in_def)

lemma requests_in_retry_trace: "requests_in (retry_trace u delay k) = k"
  by (induction k) (simp_all add: requests_in_def)

lemma sleeps_in_append: "sleeps_in (a @ b) = sleeps_in a @ sleeps_in b"
  by (induction a rule: sleeps_in.induct) simp_all

lemma sleeps_in_retry_trace: "sleeps_in (retry_trace u delay k) = replicate k delay"
  by (induction k) simp_all

lemma get_page_from_shape:
  "\<exists>k r. fetch_shape net u retries delay attempt tr k r"
proof (induction net u retries delay attempt tr rule: get_page_from.induct)
  case (1 net u retries delay attempt tr)
  show ?case
  proof (cases "attempt < retries")
    case False
    then have "fetch_shape net u retries delay attempt tr 0 (Inr None)"
      unfolding fetch_shape_def by (subst get_page_from.simps) simp
    then show ?thesis by blast
  next
    case True
    note lt = True
    show ?thesis
    proof (cases "net tr u")
      case (Response b)
      then have "fetch_shape net u retries delay attempt tr 0 (Inr (Some b))"
        unfolding fetch_shape_def using lt by (subst get_page_from.simps) simp
      then show ?thesis by blast
    next
      case (OtherException name)
      then have "fetch_shape net u retries delay attempt tr 0 (Inl (OtherError name))"
        unfolding fetch_shape_def using lt by (subst get_page_from.simps) simp
      then show ?thesis by blast
    next
      case RequestException
      show ?thesis
      proof (cases "attempt < retries - 1")
        case False
        then have "fetch_shape net u retries delay attempt tr 0 (Inr None)"
          unfolding fetch_shape_def using lt RequestException
          by (subst get_page_from.simps) simp
        then show ?thesis by blast
      next
        case True
        note again = True
        show ?thesis
        proof (cases "delay < 0")
          case True
          then have "fetch_shape net u retries delay attempt tr 0 (Inl ValueError)"
            unfolding fetch_shape_def using lt RequestException again
            by (subst get_page_from.simps) (simp add: sleep_def)
          then show ?thesis by blast
        next
          case False
          then have sl: "sleep delay (tr @ [Request u]) = Inr (tr @ [Request u, Sleep delay])"
            by (simp add: sleep_def)
          from "1.IH" [OF lt RequestException again sl]
          obtain k r where
            ih: "fetch_shape net u retries delay (attempt + 1) (tr @ [Request u, Sleep delay]) k r"
            by blast
          have step: "get_page_from net u retries delay attempt tr =
              get_page_from net u retries delay (attempt + 1) (tr @ [Request u, Sleep delay])"
            using lt RequestException again sl by (subst get_page_from.simps) simp
          have fails: "\<forall>j<Suc k. net (tr @ retry_trace u delay j) u = RequestException"
          proof (intro allI impI)
            fix j assume "j < Suc k"
            show "net (tr @ retry_trace u delay j) u = RequestException"
            proof (cases j)
              case 0
              then show ?thesis using RequestException by simp
            next
              case (Suc j')
              then have "j' < k" using \<open>j < Suc k\<close> by simp
              then show ?thesis using ih Suc unfolding fetch_shape_def by simp
            qed
          qed
          have "fetch_shape net u retries delay attempt tr (Suc k) r"
            unfolding fetch_shape_def
          proof (intro conjI)
            show "get_page_from net u retries delay attempt tr =
                (r, tr @ retry_trace u delay (Suc k) @ (if attempt < retries then [Request u] else []))"
              using ih again lt unfolding fetch_shape_def step by simp
            show "attempt + int (Suc k) < max retries (attempt + 1)"
              using ih again unfolding fetch_shape_def by simp
            show "0 < Suc k \<longrightarrow> 0 \<le> delay" using False by simp
            show "\<forall>j<Suc k. net (tr @ retry_trace u delay j) u = RequestException"
              by (rule fails)
            show "case r of
                Inl e \<Rightarrow> attempt < retries \<and>
                  (net (tr @ retry_trace u delay (Suc k)) u = RequestException \<and>
                     attempt + int (Suc k) < retries - 1 \<and> delay < 0 \<and> e = ValueError \<or>
                   (\<exists>name. net (tr @ retry_trace u delay (Suc k)) u = OtherException name \<and>
                      e = OtherError name))
              | Inr None \<Rightarrow> retries \<le> attempt \<or>
                  (attempt + int (Suc k) = retries - 1 \<and>
                   net (tr @ retry_trace u delay (Suc k)) u = RequestException)
              | Inr (Some txt) \<Rightarrow> attempt < retries \<and>
                  net (tr @ retry_trace u delay (Suc k)) u = Response txt"
              using ih lt again unfolding fetch_shape_def
              by (auto split: sum.splits option.splits)
          qed
          then show ?thesis by blast
        qed
      qed
    qed
  qed
qed

text \<open>
  Claim C5, amended. Every call of \<open>get_page\<close> sends \<open>k + 1\<close> requests, at most
  \<open>retries\<close> of them (none when \<open>retries \<le> 0\<close>), with one pause of exactly \<open>delay\<close> between
  two consecutive attempts and no other pause. The first \<open>k\<close> attempts failed with a
  \<open>RequestException\<close>. The call ends in one of three ways: it returns the body that
  answered the last attempt; it returns none, when \<open>retries \<le> 0\<close> or when all \<open>retries\<close>
  attempts failed with a \<open>RequestException\<close>; or it raises, either the exception of an
  attempt that is not a \<open>RequestException\<close>, or the \<open>ValueError\<close> of the pause when
  \<open>delay\<close> is negative and an attempt that is not the last one has failed. So with
  \<open>0 \<le> delay\<close> and failures that are all \<open>RequestException\<close>s it never raises.
\<close>

theorem get_page_retries_and_exceptions:
  "\<exists>k r tr'.
     get_page net u retries delay tr = (r, tr') \<and>
     tr' = tr @ retry_trace u delay k @ (if 0 < retries then [Request u] else []) \<and>
     int k < max retries 1 \<and>
     requests_in tr' \<le> requests_in tr + nat retries \<and>
     sleeps_in tr' = sleeps_in tr @ replicate k delay \<and>
     (0 < k \<longrightarrow> 0 \<le> delay) \<and>
     (\<forall>j<k. net (tr @ retry_trace u delay j) u = RequestException) \<and>
     (case r of
        Inr (Some txt) \<Rightarrow> 0 < retries \<and> net (tr @ retry_trace u delay k) u = Response txt
      | Inr None \<Rightarrow> retries \<le> 0 \<or>
          (int k = retries - 1 \<and> net (tr @ retry_trace u delay k) u = RequestException)
      | Inl e \<Rightarrow> 0 < retries \<and>
          (net (tr @ retry_trace u delay k) u = RequestException \<and>
             int k < retries - 1 \<and> delay < 0 \<and> e = ValueError \<or>
           (\<exists>name. net (tr @ retry_trace u delay k) u = OtherException name \<and>
              e = OtherError name)))"
proof -
  obtain k r where s: "fetch_shape net u retries delay 0 tr k r"
    using get_page_from_shape by blast
  let ?tr' = "tr @ retry_trace u delay k @ (if 0 < retries then [Request u] else [])"
  have 1: "get_page net u retries delay tr = (r, ?tr')"
    using s by (simp add: fetch_shape_def get_page_def)
  have 2: "int k < max retries 1" using s by (simp add: fetch_shape_def)
  have one: "requests_in [Request u] = 1" by (simp add: requests_in_def)
  have none: "requests_in [] = 0" by (simp add: requests_in_def)
  have 3: "requests_in ?tr' \<le> requests_in tr + nat retries"
    using 2 by (auto simp: requests_in_append requests_in_retry_trace one none)
  have 4: "sleeps_in ?tr' = sleeps_in tr @ replicate k delay"
    by (simp add: sleeps_in_append sleeps_in_retry_trace)
  have 5: "\<forall>j<k. net (tr @ retry_trace u delay j) u = RequestException"
    using s by (simp add: fetch_shape_def)
  have 6: "0 < k \<longrightarrow> 0 \<le> delay" using s by (simp add: fetch_shape_def)
  have 7: "case r of
        Inr (Some txt) \<Rightarrow> 0 < retries \<and> net (tr @ retry_trace u delay k) u = Response txt
      | Inr None \<Rightarrow> retries \<le> 0 \<or>
          (int k = retries - 1 \<and> net (tr @ retry_trace u delay k) u = RequestException)
      | Inl e \<Rightarrow> 0 < retries \<and>
          (net (tr @ retry_trace u delay k) u = RequestException \<and>
             int k < retries - 1 \<and> delay < 0 \<and> e = ValueError \<or>
           (\<exists>name. net (tr @ retry_trace u delay k) u = OtherException name \<and>
              e = OtherError name))"
    using s unfolding fetch_shape_def by (auto split: sum.splits option.splits)
  show ?thesis using 1 2 3 4 5 6 7 by blast
qed

theorem get_page_retries_and_exceptions_witness:
  "get_page down ''http://shop.example/rings'' 3 2 [] =
     (Inr None, [Request ''http://shop.example/rings'', Sleep 2,
             Request ''http://shop.example/rings'', Sleep 2,
             Request ''http://shop.example/rings''])"
proof -
  obtain k r tr' where
    g: "get_page down ''http://shop.example/rings'' 3 2 [] = (r, tr')" and
    t: "tr' = [] @ retry_trace ''http://shop.example/rings'' 2 k @
          (if (0::int) < 3 then [Request ''http://shop.example/rings''] else [])" and
    c: "case r of
        Inr (Some txt) \<Rightarrow> (0::int) < 3 \<and>
          down ([] @ retry_trace ''http://shop.example/rings'' 2 k) ''http://shop.example/rings''
            = Response txt
      | Inr None \<Rightarrow> (3::int) \<le> 0 \<or>
          (int k = 3 - 1 \<and>
           down ([] @ retry_trace ''http://shop.example/rings'' 2 k) ''http://shop.example/rings''
             = RequestException)
      | Inl e \<Rightarrow> (0::int) < 3 \<and>
          (down ([] @ retry_trace ''http://shop.example/rings'' 2 k) ''http://shop.example/rings''
             = RequestException \<and>
             int k < 3 - 1 \<and> (2::rat) < 0 \<and> e = ValueError \<or>
           (\<exists>name. down ([] @ retry_trace ''http://shop.example/rings'' 2 k)
                ''http://shop.example/rings'' = OtherException name \<and>
              e = OtherError name))"
    using get_page_retries_and_exceptions [of down "''http://shop.example/rings''" 3 2 "[]"]
    by blast
  have r: "r = Inr None" using c by (auto simp: down_def split: sum.splits option.splits)
  then have "k = 2" using c by simp
  then show ?thesis using g t r by (simp add: numeral_2_eq_2)
qed

text \<open>
  Claim C5 as stated fails: with a negative delay the first failed attempt raises
  \<open>ValueError\<close> instead of waiting, and an exception that is not a \<open>RequestException\<close>
  reaches the caller, here at the last of the three attempts.
\<close>

theorem get_page_propagates_exceptions:
  "get_page down ''http://shop.example/rings'' 3 (- 1) [] =
     (Inl ValueError, [Request ''http://shop.example/rings'']) \<and>
   get_page third_breaks ''http://shop.example/rings'' 3 2 [] =
     (Inl (OtherError ''LocationParseError''),
      [Request ''http://shop.example/rings'', Sleep 2,
       Request ''http://shop.example/rings'', Sleep 2,
       Request ''http://shop.example/rings''])"
  by (simp add: get_page_def get_page_from.simps down_def third_breaks_def sleep_def)

section \<open>The category crawler: termination and partial results\<close>

lemma startswith_append: "startswith u p \<Longrightarrow> startswith (u @ x) p"
  by (induction u p rule: startswith.induct) auto

lemma get_page_first_try:
  "net tr u = Response b \<Longrightarrow> get_page net u 3 2 tr = (Inr (Some b), tr @ [Request u])"
  unfolding get_page_def by (subst get_page_from.simps) simp

lemma forward_page_step:
  assumes "startswith u ''http''"
  shows "u \<noteq> []"
    and "get_page echo u 3 2 tr = (Inr (Some u), tr @ [Request u])"
    and "extract_product_links forward_page cfg u = Inr []"
    and "get_next_page_url forward_page cfg u u = Some (u @ ''+'')"
proof -
  show "u \<noteq> []" using assms by auto
  show "get_page echo u 3 2 tr = (Inr (Some u), tr @ [Request u])"
    by (rule get_page_first_try) (simp add: echo_def)
  show "extract_product_links forward_page cfg u = Inr []"
    by (simp add: extract_product_links_def select_def forward_page_def
        SEL_product_links_def SEL_pagination_def)
  have "startswith (u @ ''+'') ''http''" using assms by (rule startswith_append)
  then show "get_next_page_url forward_page cfg u u = Some (u @ ''+'')"
    by (simp add: get_next_page_url_def select_one_def forward_page_def anchor_def tag_get_def)
qed

lemma forward_site_never_returns:
  assumes "scrape_pages net bs cfg u acc tr = Some y"
  shows "net = echo \<longrightarrow> bs = forward_page \<longrightarrow> startswith u ''http'' \<longrightarrow> False"
proof (rule scrape_pages.raw_induct
    [where P = "\<lambda>net bs cfg u acc tr y.
       net = echo \<longrightarrow> bs = forward_page \<longrightarrow> startswith u ''http'' \<longrightarrow> False", OF _ assms])
  fix f :: "network \<Rightarrow> html_parser \<Rightarrow> config \<Rightarrow> string \<Rightarrow> string list \<Rightarrow> event list
      \<Rightarrow> ((error + string list) \<times> event list) option"
  fix net bs cfg u acc tr y
  assume IH: "\<And>net bs cfg u acc tr y. f net bs cfg u acc tr = Some y \<Longrightarrow>
      net = echo \<longrightarrow> bs = forward_page \<longrightarrow> startswith u ''http'' \<longrightarrow> False"
  assume step: "(if u = [] then Some (Inr acc, tr)
      else case get_page net u 3 2 tr of
           (Inl e, tr1) \<Rightarrow> Some (Inl e, tr1)
           | (Inr None, tr1) \<Rightarrow> Some (Inr acc, tr1)
           | (Inr (Some html), tr1) \<Rightarrow>
               if html = [] then Some (Inr acc, tr1)
               else case extract_product_links bs cfg html of
                    Inl e \<Rightarrow> Some (Inl e, tr1)
                    | Inr links \<Rightarrow>
                        case get_next_page_url bs cfg html u of
                        None \<Rightarrow> Some (Inr (acc @ links), tr1)
                        | Some next_url \<Rightarrow>
                            if next_url \<noteq> [] \<and> next_url \<noteq> u
                            then f net bs cfg next_url (acc @ links) (tr1 @ [Sleep 1])
                            else Some (Inr (acc @ links), tr1)) = Some y"
  show "net = echo \<longrightarrow> bs = forward_page \<longrightarrow> startswith u ''http'' \<longrightarrow> False"
  proof (intro impI)
    assume n: "net = echo" and b: "bs = forward_page" and h: "startswith u ''http''"
    have "f echo forward_page cfg (u @ ''+'') (acc @ []) ((tr @ [Request u]) @ [Sleep 1]) = Some y"
      using step unfolding n b
      by (simp add: forward_page_step [OF h])
    then have "startswith (u @ ''+'') ''http'' \<longrightarrow> False"
      using IH by blast
    then show False using startswith_append [OF h] by blast
  qed
qed

text \<open>
  Claim C3 as stated fails: the loop has no page-count ceiling. On a site whose every
  page links forward to a new, distinct URL, \<open>scrape_category\<close> does not return.
\<close>

theorem scrape_category_forward_site_diverges:
  "scrape_category echo forward_page shop ''http://shop.example/rings'' [] = None"
proof (cases "scrape_category echo forward_page shop ''http://shop.example/rings'' []")
  case None
  then show ?thesis .
next
  case (Some y)
  have h: "startswith ''http://shop.example/rings'' ''http''" by simp
  have "full_url shop ''http://shop.example/rings'' = ''http://shop.example/rings''"
    by (simp add: full_url_def)
  then have "scrape_pages echo forward_page shop ''http://shop.example/rings'' [] [] = Some y"
    using Some by (simp add: scrape_category_def)
  then show ?thesis using forward_site_never_returns h by blast
qed

text \<open>
  Claim C3, amended. When the next-page link of the fetched category page resolves to
  the current page URL, \<open>scrape_category\<close> returns after that one page (with the links
  of the page, or with the exception of the link extraction), having sent no further
  request. Nothing bounds the number of pages when the links keep advancing.
\<close>

theorem scrape_category_stops_at_self_link:
  assumes "get_page net (full_url cfg category_url) 3 2 tr = (Inr (Some html), tr1)"
    and "get_next_page_url bs cfg html (full_url cfg category_url) = Some (full_url cfg category_url)"
  shows "scrape_category net bs cfg category_url tr =
           Some (if html = [] then Inr [] else extract_product_links bs cfg html, tr1)"
proof -
  have "full_url cfg category_url \<noteq> []"
    using assms(2) by (auto simp: get_next_page_url_def split: option.splits if_splits)
  then show ?thesis
    unfolding scrape_category_def
    by (subst scrape_pages.simps) (simp add: assms split: sum.splits)
qed

lemma scrape_pages_after_crawled:
  assumes "crawled net bs cfg start links stop"
  shows "\<And>u tr u' tr' acc r tr''. start = (u, tr) \<Longrightarrow> stop = (u', tr') \<Longrightarrow> u' \<noteq> [] \<Longrightarrow>
     get_page net u' 3 2 tr' = (Inr r, tr'') \<Longrightarrow> r = None \<or> r = Some [] \<Longrightarrow>
     scrape_pages net bs cfg u acc tr = Some (Inr (acc @ links), tr'')"
  using assms
proof (induction rule: crawled.induct)
  case (here u0 tr0)
  then show ?case
    by (subst scrape_pages.simps) auto
next
  case (page u0 tr0 html tr1 links next_url rest end_state)
  have "scrape_pages net bs cfg next_url (acc @ links) (tr1 @ [Sleep 1])
      = Some (Inr ((acc @ links) @ rest), tr'')"
    by (rule page.IH [OF refl page.prems(2-5)])
  moreover have "u = u0" "tr = tr0" using page.prems(1) by simp_all
  ultimately show ?case
    using page.hyps by (subst scrape_pages.simps) simp
qed

text \<open>
  Claim C9. When \<open>scrape_category\<close> has fetched a run of pages from the category URL
  on, collecting \<open>links\<close> from them in order, and the fetch of the page it then stands
  at fails (\<open>get_page\<close> returns none, or an empty body, which the loop treats alike), it
  returns exactly \<open>links\<close>, and returns them as a value, not as an exception.
\<close>

theorem scrape_category_partial_on_fetch_failure:
  assumes "crawled net bs cfg (full_url cfg category_url, tr) links (u', tr')"
    and "u' \<noteq> []"
    and "get_page net u' 3 2 tr' = (Inr r, tr'')"
    and "r = None \<or> r = Some []"
  shows "scrape_category net bs cfg category_url tr = Some (Inr links, tr'')"
  using scrape_pages_after_crawled [OF assms(1) refl refl assms(2-4), of "[]"]
  by (simp add: scrape_category_def)

theorem scrape_category_stops_at_self_link_witness:
  "scrape_category echo listing_page shop ''/rings'' [] =
     Some (Inr [''http://shop.example/p/1'', ''http://cdn.example/p/2''],
           [Request ''http://shop.example/rings''])"
proof -
  have u: "full_url shop ''/rings'' = ''http://shop.example/rings''"
    by (simp add: full_url_def shop_def)
  have g: "get_page echo (full_url shop ''/rings'') 3 2 [] =
      (Inr (Some ''http://shop.example/rings''), [Request ''http://shop.example/rings''])"
    unfolding u using get_page_first_try [of echo "[]" "''http://shop.example/rings''"]
    by (simp add: echo_def)
  have n: "get_next_page_url listing_page shop ''http://shop.example/rings'' (full_url shop ''/rings'')
      = Some (full_url shop ''/rings'')"
    unfolding u
    by (simp add: get_next_page_url_def listing_page_def select_one_def anchor_def tag_get_def
        shop_def SEL_pagination_def SEL_product_links_def)
  have e: "extract_product_links listing_page shop ''http://shop.example/rings'' =
      Inr [''http://shop.example/p/1'', ''http://cdn.example/p/2'']"
    by (simp add: extract_product_links_def select_def listing_page_def anchor_def tag_item_def
        resolve_def shop_def)
  show ?thesis
    using scrape_category_stops_at_self_link [OF g n] e by simp
qed

theorem scrape_category_partial_on_fetch_failure_witness:
  "scrape_category two_pages two_pages_parser shop ''/rings'' [] =
     Some (Inr [''http://shop.example/p/1'', ''http://shop.example/p/2''],
           [Request ''http://shop.example/rings'', Sleep 1,
            Request ''http://shop.example/rings2'', Sleep 2,
            Request ''http://shop.example/rings2'', Sleep 2,
            Request ''http://shop.example/rings2''])"
proof -
  have u: "full_url shop ''/rings'' = ''http://shop.example/rings''"
    by (simp add: full_url_def shop_def)
  have g: "get_page two_pages ''http://shop.example/rings'' 3 2 [] =
      (Inr (Some ''first''), [Request ''http://shop.example/rings''])"
    using get_page_first_try [of two_pages "[]" "''http://shop.example/rings''"]
    by (simp add: two_pages_def)
  have e: "extract_product_links two_pages_parser shop ''first'' =
      Inr [''http://shop.example/p/1'', ''http://shop.example/p/2'']"
    by (simp add: extract_product_links_def select_def two_pages_parser_def anchor_def
        tag_item_def resolve_def shop_def)
  have n: "get_next_page_url two_pages_parser shop ''first'' ''http://shop.example/rings''
      = Some ''http://shop.example/rings2''"
    by (simp add: get_next_page_url_def two_pages_parser_def select_one_def anchor_def tag_get_def
        shop_def SEL_pagination_def SEL_product_links_def)
  have c: "crawled two_pages two_pages_parser shop (full_url shop ''/rings'', [])
      ([''http://shop.example/p/1'', ''http://shop.example/p/2''] @ [])
      (''http://shop.example/rings2'', [Request ''http://shop.example/rings''] @ [Sleep 1])"
    unfolding u
    by (rule crawled.page [OF _ g _ e n _ _ crawled.here]) simp_all
  have f: "get_page two_pages ''http://shop.example/rings2'' 3 2
      ([Request ''http://shop.example/rings''] @ [Sleep 1]) =
      (Inr None, [Request ''http://shop.example/rings'', Sleep 1,
            Request ''http://shop.example/rings2'', Sleep 2,
            Request ''http://shop.example/rings2'', Sleep 2,
            Request ''http://shop.example/rings2''])"
    by (simp add: get_page_def get_page_from.simps two_pages_def sleep_def)
  show ?thesis
    using scrape_category_partial_on_fetch_failure [OF c _ f] by simp
qed

section \<open>Progress arithmetic\<close>

lemma py_int_scaled: "py_int (of_nat a / of_nat b * of_nat c) = int ((c * a) div b)"
proof -
  have "(of_nat a / of_nat b * of_nat c :: rat) = of_nat (c * a) / of_nat b" by simp
  moreover have "(0::rat) \<le> of_nat (c * a) / of_nat b" by simp
  ultimately show ?thesis
    unfolding py_int_def by (simp only: if_True floor_divide_of_nat_eq)
qed

lemma category_progress_div:
  "0 < n \<Longrightarrow> category_progress k n = Inr (int ((30 * k) div n))"
  using py_int_scaled [of k n 30] by (simp add: category_progress_def py_truediv_def)

lemma py_int_add_int: "0 \<le> x \<Longrightarrow> py_int (30 + x) = 30 + py_int x"
proof -
  assume "0 \<le> x"
  have "\<lfloor>30 + x\<rfloor> = 30 + \<lfloor>x\<rfloor>"
    using floor_add_int [of x 30] by (simp add: add.commute)
  then show ?thesis using \<open>0 \<le> x\<close> by (simp add: py_int_def)
qed

lemma product_progress_div:
  "0 < n \<Longrightarrow> product_progress i n = Inr (30 + int ((60 * (i + 1)) div n))"
proof -
  assume "0 < n"
  have "(0::rat) \<le> of_nat (i + 1) / of_nat n * of_nat 60" by simp
  then have "py_int (30 + of_nat (i + 1) / of_nat n * of_nat 60) = 30 + int ((60 * (i + 1)) div n)"
    using py_int_add_int py_int_scaled [of "i + 1" n 60] by simp
  then show ?thesis using \<open>0 < n\<close>
    by (simp add: product_progress_def py_truediv_def)
qed


section \<open>The worker: what it writes to the progress, and that it never decreases\<close>

lemma steady_update:
  assumes "progress_steady j" "progress (shared j) \<le> progress (f (shared j))"
  shows "progress_steady (update_scraper_status f j)"
  using assms
  by (auto simp: progress_steady_def update_scraper_status_def sorted_append list_all_iff)

lemma steady_first_update:
  "snapshots j = [] \<Longrightarrow> progress_steady (update_scraper_status f j)"
  by (simp add: progress_steady_def update_scraper_status_def)

lemma shared_update [simp]:
  "shared (update_scraper_status f j) = f (shared j)"
  by (simp add: update_scraper_status_def)

lemma steady_other_fields [simp]:
  "progress_steady (j\<lparr> trace := tr \<rparr>) = progress_steady j"
  "progress_steady (j\<lparr> errors := e \<rparr>) = progress_steady j"
  "progress_steady (j\<lparr> warnings := w \<rparr>) = progress_steady j"
  "progress_steady (j\<lparr> hung := h \<rparr>) = progress_steady j"
  "progress_steady (j\<lparr> products := ps \<rparr>) = progress_steady j"
  "progress_steady (j\<lparr> unavailable := us \<rparr>) = progress_steady j"
  "progress_steady (j\<lparr> job_history := hs \<rparr>) = progress_steady j"
  by (simp_all add: progress_steady_def)

lemma div_le_factor: "(k::nat) \<le> n \<Longrightarrow> (c * k) div n \<le> c"
proof (cases "n = 0")
  case True
  then show ?thesis by simp
next
  case False
  assume "k \<le> n"
  then have "c * k \<le> c * n" by simp
  then have "(c * k) div n \<le> (c * n) div n" by (rule div_le_mono)
  then show ?thesis using False by simp
qed

lemma scrape_categories_steady:
  assumes "progress_steady j"
    and "progress (shared j) \<le> int ((30 * processed) div tot)"
    and "processed + length cs \<le> tot"
  shows "progress_steady (snd (snd (scrape_categories net bs cfg tot cs (links, processed, j)))) \<and>
         progress (shared (snd (snd (scrape_categories net bs cfg tot cs (links, processed, j))))) \<le> 30"
  using assms
proof (induction cs arbitrary: links processed j)
  case Nil
  have "(30 * processed) div tot \<le> 30"
    using Nil.prems(3) by (intro div_le_factor) simp
  then show ?case using Nil.prems by simp
next
  case (Cons c cs)
  let ?j1 = "update_scraper_status (\<lambda>s. s\<lparr> status := ''Scraping category: '' @ c \<rparr>) j"
  have s1: "progress_steady ?j1"
    using Cons.prems(1) by (intro steady_update) simp_all
  have p1: "progress (shared ?j1) = progress (shared j)" by simp
  have pos: "0 < tot" using Cons.prems(3) by simp
  have le: "processed \<le> tot" using Cons.prems(3) by simp
  show ?case
  proof (cases "scrape_category net bs cfg c (trace ?j1)")
    case None
    have "(30 * processed) div tot \<le> 30"
      using le by (intro div_le_factor)
    then show ?thesis using None s1 Cons.prems(2) by simp
  next
    case (Some res)
    obtain r tr where res: "res = (r, tr)" by (cases res)
    show ?thesis
    proof (cases r)
      case (Inl e)
      let ?j2 = "?j1\<lparr> trace := tr, errors := errors ?j1 + 1 \<rparr>"
      have eq: "scrape_categories net bs cfg tot (c # cs) (links, processed, j) =
          scrape_categories net bs cfg tot cs (links, processed, ?j2)"
        using Some res Inl by (simp add: Let_def)
      have a: "progress_steady ?j2"
        using s1 by simp
      have b: "progress (shared ?j2) \<le> int ((30 * processed) div tot)"
        using Cons.prems(2) by simp
      have c: "processed + length cs \<le> tot" using Cons.prems(3) by simp
      show ?thesis unfolding eq by (rule Cons.IH [OF a b c])
    next
      case (Inr category_links)
      let ?p = "int ((30 * (processed + 1)) div tot)"
      let ?j2 = "update_scraper_status
            (\<lambda>s. s\<lparr> progress := ?p, pages_crawled := pages_crawled s, total_pages := total_pages s \<rparr>)
            (?j1\<lparr> trace := tr \<rparr>)"
      have cp: "category_progress (processed + 1) tot = Inr ?p"
        using pos by (rule category_progress_div)
      have mono: "(30 * processed) div tot \<le> (30 * (processed + 1)) div tot"
        by (rule div_le_mono) simp
      have eq: "scrape_categories net bs cfg tot (c # cs) (links, processed, j) =
          scrape_categories net bs cfg tot cs (links @ category_links, processed + 1, ?j2)"
        using Some res Inr cp by (simp add: Let_def)
      have a: "progress_steady ?j2"
        using s1 Cons.prems(2) mono by (intro steady_update) simp_all
      have b: "progress (shared ?j2) \<le> ?p" by simp
      have c: "(processed + 1) + length cs \<le> tot" using Cons.prems(3) by simp
      show ?thesis unfolding eq by (rule Cons.IH [OF a b c])
    qed
  qed
qed

lemma route_product_steady:
  "progress_steady j \<Longrightarrow> progress_steady (route_product p j)"
  unfolding route_product_def
  by (auto intro!: steady_update)

lemma route_product_progress [simp]:
  "progress (shared (route_product p j)) = progress (shared j)"
  by (simp add: route_product_def)

lemma update_keeps [simp]:
  "errors (update_scraper_status f j) = errors j"
  "warnings (update_scraper_status f j) = warnings j"
  "hung (update_scraper_status f j) = hung j"
  "trace (update_scraper_status f j) = trace j"
  by (simp_all add: update_scraper_status_def)

lemma route_product_processed [simp]:
  "products_processed (shared (route_product p j)) = products_processed (shared j)"
  by (simp add: route_product_def)

lemma process_products_step:
  assumes "0 < n"
  shows "\<exists>j'. process_products net bs delay n i (link # rest) j =
            process_products net bs delay n (i + 1) rest j' \<and>
          progress (shared j') = 30 + int ((60 * (i + 1)) div n) \<and>
          products_processed (shared j') = i + 1 \<and>
          (progress_steady j \<longrightarrow> progress (shared j) \<le> 30 + int ((60 * i) div n) \<longrightarrow>
             progress_steady j')"
proof -
  let ?j1 = "update_scraper_status
        (\<lambda>s. s\<lparr> status := ''Processing product '' @ str_of_nat (i + 1) @ ''/'' @ str_of_nat n,
                 products_processed := i + 1 \<rparr>) j"
  let ?p = "30 + int ((60 * (i + 1)) div n)"
  let ?j2 = "update_scraper_status (\<lambda>s. s\<lparr> progress := ?p \<rparr>) ?j1"
  let ?fetched = "get_page net link 3 2 (trace ?j2)"
  let ?j3 = "?j2\<lparr> trace := snd ?fetched \<rparr>"
  have pp: "product_progress i n = Inr ?p" using assms by (rule product_progress_div)
  have mono: "(60 * i) div n \<le> (60 * (i + 1)) div n"
    by (rule div_le_mono) simp
  have s3: "progress_steady ?j3"
    if st: "progress_steady j" and le: "progress (shared j) \<le> 30 + int ((60 * i) div n)"
  proof -
    have s1: "progress_steady ?j1" by (rule steady_update [OF st]) simp
    have "progress_steady ?j2" using le mono by (intro steady_update [OF s1]) simp
    then show ?thesis by simp
  qed
  have p3: "progress (shared ?j3) = ?p" "products_processed (shared ?j3) = i + 1" by simp_all
  show ?thesis
  proof (cases "fst ?fetched")
    case (Inl e)
    let ?j' = "?j3\<lparr> warnings := warnings ?j3 + 1 \<rparr>"
    have eq: "process_products net bs delay n i (link # rest) j =
        process_products net bs delay n (i + 1) rest ?j'"
      by (simp only: process_products.simps Let_def pp sum.case Inl)
    have "progress (shared ?j') = ?p" "products_processed (shared ?j') = i + 1"
      using p3 by simp_all
    moreover have "progress_steady j \<longrightarrow> progress (shared j) \<le> 30 + int ((60 * i) div n) \<longrightarrow>
        progress_steady ?j'"
      using s3 by simp
    ultimately show ?thesis using eq by blast
  next
    case (Inr page)
    let ?j4 = "case page of
                 None \<Rightarrow> ?j3
               | Some html \<Rightarrow>
                   if html = [] then ?j3
                   else (case parse_product_page bs html link of
                           None \<Rightarrow> ?j3
                         | Some product \<Rightarrow> route_product product ?j3)"
    let ?j5 = "update_scraper_status (\<lambda>s. s) ?j4"
    have p4: "progress (shared ?j4) = ?p" "products_processed (shared ?j4) = i + 1"
      using p3 by (auto split: option.splits)
    have p5: "progress (shared ?j5) = ?p" "products_processed (shared ?j5) = i + 1"
      using p4 by simp_all
    have s5: "progress_steady ?j5"
      if st: "progress_steady j" and le: "progress (shared j) \<le> 30 + int ((60 * i) div n)"
    proof -
      have "progress_steady ?j4"
        using s3 [OF st le] by (auto split: option.splits intro: route_product_steady)
      then show ?thesis by (rule steady_update) simp
    qed
    show ?thesis
    proof (cases "sleep (if i mod 10 = 0 then delay else 1 / 2) (trace ?j5)")
      case (Inl e)
      let ?j' = "?j5\<lparr> warnings := warnings ?j5 + 1 \<rparr>"
      have eq: "process_products net bs delay n i (link # rest) j =
          process_products net bs delay n (i + 1) rest ?j'"
        by (simp only: process_products.simps Let_def pp sum.case Inr Inl)
      have "progress (shared ?j') = ?p" "products_processed (shared ?j') = i + 1"
        using p5 by simp_all
      moreover have "progress_steady j \<longrightarrow> progress (shared j) \<le> 30 + int ((60 * i) div n) \<longrightarrow>
          progress_steady ?j'"
        using s5 by simp
      ultimately show ?thesis using eq by blast
    next
      case slept: (Inr tr)
      let ?j' = "?j5\<lparr> trace := tr \<rparr>"
      have eq: "process_products net bs delay n i (link # rest) j =
          process_products net bs delay n (i + 1) rest ?j'"
        by (simp only: process_products.simps Let_def pp sum.case Inr slept)
      have "progress (shared ?j') = ?p" "products_processed (shared ?j') = i + 1"
        using p5 by simp_all
      moreover have "progress_steady j \<longrightarrow> progress (shared j) \<le> 30 + int ((60 * i) div n) \<longrightarrow>
          progress_steady ?j'"
        using s5 by simp
      ultimately show ?thesis using eq by blast
    qed
  qed
qed

lemma process_products_steady:
  assumes "progress_steady j"
    and "progress (shared j) \<le> 30 + int ((60 * i) div n)"
    and "i + length ls = n"
  shows "progress_steady (process_products net bs delay n i ls j) \<and>
         progress (shared (process_products net bs delay n i ls j)) \<le> 90"
  using assms
proof (induction ls arbitrary: i j)
  case Nil
  have "(60 * i) div n \<le> 60"
    using Nil.prems(3) by (intro div_le_factor) simp
  then show ?case using Nil.prems by simp
next
  case (Cons link rest)
  have pos: "0 < n" using Cons.prems(3) by auto
  obtain j' where
    eq: "process_products net bs delay n i (link # rest) j =
           process_products net bs delay n (i + 1) rest j'" and
    p: "progress (shared j') = 30 + int ((60 * (i + 1)) div n)" and
    s: "progress_steady j \<longrightarrow> progress (shared j) \<le> 30 + int ((60 * i) div n) \<longrightarrow>
          progress_steady j'"
    using process_products_step [OF pos] by blast
  have a: "progress_steady j'" using s Cons.prems(1,2) by blast
  have b: "progress (shared j') \<le> 30 + int ((60 * (i + 1)) div n)" using p by simp
  have c: "(i + 1) + length rest = n" using Cons.prems(3) by simp
  show ?case unfolding eq by (rule Cons.IH [OF a b c])
qed




text \<open>
  Claim C7. Within one run of the worker, the progress of the job status never
  decreases: of two status reads made after the \<open>i\<close>-th and the \<open>k\<close>-th update of the
  run, \<open>i \<le> k\<close>, the later one sees a progress at least as large. This holds for every
  network, parser, feed writer and configuration, and also for a run that hangs in a
  category crawl.
\<close>

theorem progress_never_decreases:
  "\<forall>i k. i \<le> k \<longrightarrow> k < length (snapshots (scraper_thread net bs feeds_ok config st hist tr)) \<longrightarrow>
     progress (snapshots (scraper_thread net bs feeds_ok config st hist tr) ! i)
       \<le> progress (snapshots (scraper_thread net bs feeds_ok config st hist tr) ! k)"
proof -
  let ?j0 = "\<lparr> shared = st, snapshots = [], job_history = hist, trace = tr, products = [],
               unavailable = [], errors = 0, warnings = 0, hung = False \<rparr>"
  let ?j1 = "update_scraper_status running_update ?j0"
  let ?cfg = "\<lparr> BASE_URL = base_url config, CATEGORY_URLS = categories config \<rparr>"
  let ?j2 = "update_scraper_status (\<lambda>s. s\<lparr> total_pages := 0 \<rparr>) ?j1"
  let ?crawl = "scrape_categories net bs ?cfg (length (categories config))
                  (CATEGORY_URLS ?cfg) ([], 0, ?j2)"
  let ?j3 = "snd (snd ?crawl)"
  let ?unique = "remdups (fst ?crawl)"
  let ?j4 = "update_scraper_status
               (\<lambda>s. s\<lparr> status := ''Processing products'', total_products := length ?unique \<rparr>) ?j3"
  let ?j5 = "process_products net bs (request_delay config) (length ?unique) 0 ?unique ?j4"
  let ?j6 = "update_scraper_status (\<lambda>s. s\<lparr> status := ''Generating feeds'', progress := 90 \<rparr>) ?j5"
  let ?j7 = "if feeds_ok (products ?j6) (unavailable ?j6)
             then update_scraper_status (\<lambda>s. s\<lparr> feed_status := ''Completed'' \<rparr>) ?j6
             else update_scraper_status (\<lambda>s. s\<lparr> feed_status := ''Failed'' \<rparr>)
                    (?j6\<lparr> errors := errors ?j6 + 1 \<rparr>)"
  let ?j8 = "update_scraper_status (\<lambda>s. s\<lparr> status := ''Idle'', progress := 100 \<rparr>) ?j7"
  have s1: "progress_steady ?j1" by (rule steady_first_update) simp
  have p1: "progress (shared ?j1) = 0" by (simp add: running_update_def)
  have s2: "progress_steady ?j2" by (rule steady_update [OF s1]) simp
  have p2: "progress (shared ?j2) \<le> int ((30 * 0) div length (categories config))"
    using p1 by simp
  have c3: "progress_steady ?j3 \<and> progress (shared ?j3) \<le> 30"
    by (rule scrape_categories_steady [OF s2 p2]) simp
  have s4: "progress_steady ?j4" by (rule steady_update [OF conjunct1 [OF c3]]) simp
  have p4: "progress (shared ?j4) \<le> 30 + int ((60 * 0) div length ?unique)"
    using c3 by simp
  have c5: "progress_steady ?j5 \<and> progress (shared ?j5) \<le> 90"
    by (rule process_products_steady [OF s4 p4]) simp
  have s6: "progress_steady ?j6"
    using conjunct2 [OF c5] by (intro steady_update [OF conjunct1 [OF c5]]) simp
  have p6: "progress (shared ?j6) = 90" by simp
  have s6e: "progress_steady (?j6\<lparr> errors := errors ?j6 + 1 \<rparr>)"
    using s6 by (simp only: steady_other_fields)
  have s7: "progress_steady ?j7"
  proof (cases "feeds_ok (products ?j6) (unavailable ?j6)")
    case True
    have "progress_steady (update_scraper_status (\<lambda>s. s\<lparr> feed_status := ''Completed'' \<rparr>) ?j6)"
      by (rule steady_update [OF s6]) simp
    then show ?thesis using True by (simp only: if_True)
  next
    case False
    have "progress_steady (update_scraper_status (\<lambda>s. s\<lparr> feed_status := ''Failed'' \<rparr>)
        (?j6\<lparr> errors := errors ?j6 + 1 \<rparr>))"
      by (rule steady_update [OF s6e]) simp
    then show ?thesis using False by (simp only: if_False)
  qed
  have p7: "progress (shared ?j7) = 90" by simp
  have s8: "progress_steady ?j8"
    using p7 by (intro steady_update [OF s7]) simp
  have "progress_steady (scraper_thread net bs feeds_ok config st hist tr)"
  proof (cases "hung ?j3")
    case True
    have "progress_steady ?j3" using c3 by (rule conjunct1)
    then show ?thesis
      using True by (simp only: scraper_thread_def Let_def if_True)
  next
    case False
    show ?thesis
      using False s8 by (simp only: scraper_thread_def Let_def if_False steady_other_fields)
  qed
  then have "sorted (map progress (snapshots (scraper_thread net bs feeds_ok config st hist tr)))"
    by (simp add: progress_steady_def)
  then show ?thesis
    by (auto simp: sorted_iff_nth_mono)
qed

lemma sample_crawl:
  "scrape_category down blank_page
     \<lparr> BASE_URL = ''http://shop.example'', CATEGORY_URLS = [''/rings''] \<rparr> ''/rings'' tr =
   Some (Inr [], tr @ [Request ''http://shop.example/rings'', Sleep 2,
                       Request ''http://shop.example/rings'', Sleep 2,
                       Request ''http://shop.example/rings''])"
  unfolding scrape_category_def
  by (subst scrape_pages.simps)
    (simp add: full_url_def get_page_def get_page_from.simps down_def sleep_def)

lemma sample_run_progress:
  "map progress (snapshots (scraper_thread down blank_page (\<lambda>a b. True) rings_job initial_status [] []))
     = [0, 0, 0, 30, 30, 90, 90, 100]"
  by (simp add: scraper_thread_def Let_def rings_job_def sample_crawl update_scraper_status_def
      running_update_def initial_status_def category_progress_div)

theorem progress_never_decreases_witness:
  "(3::nat) \<le> 5 \<and>
   5 < length (snapshots (scraper_thread down blank_page (\<lambda>a b. True) rings_job initial_status [] [])) \<and>
   progress (snapshots (scraper_thread down blank_page (\<lambda>a b. True) rings_job initial_status [] []) ! 3)
     \<le> progress (snapshots (scraper_thread down blank_page (\<lambda>a b. True) rings_job initial_status [] []) ! 5)"
proof -
  have "length (map progress
      (snapshots (scraper_thread down blank_page (\<lambda>a b. True) rings_job initial_status [] []))) = 8"
    by (simp only: sample_run_progress) simp
  then have len: "5 < length (snapshots (scraper_thread down blank_page (\<lambda>a b. True) rings_job initial_status [] []))"
    by simp
  show ?thesis
    using progress_never_decreases
      [of down blank_page "\<lambda>a b. True" rings_job initial_status "[]" "[]"] len
    by simp
qed





section \<open>The start endpoint\<close>

lemma start_scraper_rejects_while_not_idle:
  "status (global_status sv) \<noteq> ''Idle'' \<Longrightarrow>
   start_scraper sv = (Json_error 400 ''Scraper is already running'', sv)"
  by (simp add: start_scraper_def)

lemma thread_begin_not_idle:
  "i < length (threads sv) \<Longrightarrow> threads sv ! i = Started \<Longrightarrow>
   status (global_status (thread_begin i sv)) \<noteq> ''Idle''"
  by (simp add: thread_begin_def running_update_def)

text \<open>
  Claim C6 at two start requests in a row. A start request is rejected whenever the
  status is not \<open>Idle\<close> (the two lemmas above), but the status only leaves \<open>Idle\<close> when
  the worker thread makes its first update. A second request that arrives before
  that is accepted as well: two workers are started, and both run.
\<close>

theorem two_starts_two_workers:
  "fst (start_scraper idle_server) = Json ''Scraper started'' \<and>
   fst (start_scraper (snd (start_scraper idle_server))) = Json ''Scraper started'' \<and>
   threads (snd (start_scraper (snd (start_scraper idle_server)))) = [Started, Started] \<and>
   threads (thread_begin 1 (thread_begin 0 (snd (start_scraper (snd (start_scraper idle_server))))))
     = [Working, Working] \<and>
   status (global_status
     (thread_begin 1 (thread_begin 0 (snd (start_scraper (snd (start_scraper idle_server)))))))
     = ''Running''"
  by (simp add: start_scraper_def idle_server_def initial_status_def thread_begin_def
      running_update_def)

end
